theory Spec2Isabelle
  imports Main
begin

section \<open>Errors and the buffered input stream\<close>

text \<open>
  Go strings are byte sequences; \<open>string\<close> (a list of 8-bit \<open>char\<close>) is the same thing.
  The two bytes of the line terminator are named once.
\<close>

abbreviation CR :: char where "CR \<equiv> CHR 0x0D"
abbreviation LF :: char where "LF \<equiv> CHR 0x0A"
abbreviation SP :: char where "SP \<equiv> CHR 0x20"

definition CRLF :: string where
  "CRLF = [CR, LF]"

text \<open>
  A Go \<open>error\<close> value is either one that the underlying connection produced
  (\<open>io.EOF\<close>, a timeout, some other I/O failure) or one built by \<open>fmt.Errorf\<close>.
  The latter is kept as the format string with its arguments, unformatted.
\<close>

datatype fmt_arg = Str string | Strs "string list"

datatype error = EOF | Timeout | IOError string | Errorf string "fmt_arg list"

text \<open>
  \<open>*bufio.Reader\<close>: what is still to come from the connection, in order. Each event is one
  byte, or an error that the underlying \<open>Read\<close> reports at that point. When the events are
  used up the stream is at its end and every further read reports \<open>io.EOF\<close>.
\<close>

datatype event = Byte char | Fail error

type_synonym reader = "event list"

text \<open>
  \<open>bufio.Reader.ReadString(delim)\<close> (Go standard library, modelled from its documentation):
  reads until the first occurrence of \<open>delim\<close> and returns the bytes up to and including it;
  when an error comes first, it returns the bytes read before the error and the error.
  The error is \<open>nil\<close> exactly when the returned data ends in \<open>delim\<close>.
\<close>

fun ReadString :: "reader \<Rightarrow> char \<Rightarrow> string \<times> error option \<times> reader" where
  "ReadString [] delim = ([], Some EOF, [])"
| "ReadString (Fail e # br) delim = ([], Some e, br)"
| "ReadString (Byte c # br) delim =
     (if c = delim then ([c], None, br)
      else (case ReadString br delim of (s, err, br') \<Rightarrow> (c # s, err, br')))"

text \<open>\<open>strings.HasSuffix(s, suffix)\<close>.\<close>

definition HasSuffix :: "string \<Rightarrow> string \<Rightarrow> bool" where
  "HasSuffix s suffix \<longleftrightarrow>
     length s \<ge> length suffix \<and> drop (length s - length suffix) s = suffix"

section \<open>server/util.go: ReadLine\<close>

lemma ReadString_progress:
  "ReadString br delim = (s, None, br') \<Longrightarrow> length br' < length br"
proof (induction br delim arbitrary: s rule: ReadString.induct)
  case (3 c br delim)
  show ?case
  proof (cases "c = delim")
    case True
    with "3.prems" show ?thesis by simp
  next
    case False
    obtain s1 e1 b1 where r: "ReadString br delim = (s1, e1, b1)"
      by (cases "ReadString br delim") auto
    with False "3.prems" have "e1 = None" "b1 = br'" by simp_all
    with "3.IH" [OF False] r have "length br' < length br" by simp
    then show ?thesis by simp
  qed
qed simp_all

text \<open>
  The body of \<open>ReadLine\<close> is one \<open>for\<close> loop over the accumulated \<open>line\<close>;
  \<open>ReadLine_loop\<close> is that loop, entered with the \<open>line\<close> and the reader as they are
  at the top of an iteration.
\<close>

function ReadLine_loop :: "string \<Rightarrow> reader \<Rightarrow> string \<times> error option \<times> reader" where
  "ReadLine_loop line br =
     (case ReadString br LF of (s, err, br') \<Rightarrow>
        (let line' = line @ s in
         if err \<noteq> None then (line', err, br')
         else if HasSuffix line' CRLF then (take (length line' - 2) line', None, br')
         else ReadLine_loop line' br'))"
  by pat_completeness auto
termination
  by (relation "measure (\<lambda>(line, br). length br)")
     (auto dest: ReadString_progress [OF sym])

declare ReadLine_loop.simps [simp del]

definition ReadLine :: "reader \<Rightarrow> string \<times> error option \<times> reader" where
  "ReadLine br = ReadLine_loop [] br"

lemma ReadLine_loop_progress:
  "ReadLine_loop line br = (l, None, br') \<Longrightarrow> length br' < length br"
proof (induction line br rule: ReadLine_loop.induct)
  case (1 line br)
  obtain s err b where r: "ReadString br LF = (s, err, b)"
    by (cases "ReadString br LF") auto
  show ?case
  proof (cases "err = None")
    case False
    with r "1.prems" show ?thesis
      by (subst (asm) ReadLine_loop.simps) simp
  next
    case True
    with r have lt: "length b < length br"
      by (auto dest: ReadString_progress)
    show ?thesis
    proof (cases "HasSuffix (line @ s) CRLF")
      case True
      with r \<open>err = None\<close> "1.prems" have "br' = b"
        by (subst (asm) ReadLine_loop.simps) simp
      with lt show ?thesis by simp
    next
      case False
      with r \<open>err = None\<close> "1.prems" have "ReadLine_loop (line @ s) b = (l, None, br')"
        by (subst (asm) ReadLine_loop.simps) simp
      with "1.IH" [OF r [symmetric] refl refl] \<open>err = None\<close> False
      have "length br' < length b" by simp
      with lt show ?thesis by simp
    qed
  qed
qed

lemma ReadLine_progress:
  "ReadLine br = (l, None, br') \<Longrightarrow> length br' < length br"
  unfolding ReadLine_def by (rule ReadLine_loop_progress)

section \<open>The request parser\<close>

record Request =
  Method :: string

text \<open>
  \<open>strings.SplitN(s, sep, n)\<close> (Go standard library, modelled from its documentation) for a
  one-byte separator and \<open>n \<ge> 0\<close>: at most \<open>n\<close> substrings, the last one the unsplit
  remainder; \<open>n = 0\<close> gives no substring at all. The parser calls it with \<open>" "\<close> and \<open>2\<close>.
\<close>

fun SplitN :: "string \<Rightarrow> char \<Rightarrow> nat \<Rightarrow> string list" where
  "SplitN s sep 0 = []"
| "SplitN s sep (Suc 0) = [s]"
| "SplitN s sep (Suc (Suc n)) =
     (if sep \<in> set s
      then takeWhile (\<lambda>c. c \<noteq> sep) s # SplitN (tl (dropWhile (\<lambda>c. c \<noteq> sep) s)) sep (Suc n)
      else [s])"

definition parseRequestLine :: "string \<Rightarrow> string \<times> error option" where
  "parseRequestLine line =
     (let fields = SplitN line SP 2 in
      if length fields \<noteq> 2
      then ([], Some (Errorf ''could not parse the request line, got fields %v'' [Strs fields]))
      else (fields ! 0, None))"

definition validMethod :: "string \<Rightarrow> bool" where
  "validMethod method \<longleftrightarrow> method = ''GET''"

definition badStringError :: "string \<Rightarrow> string \<Rightarrow> error" where
  "badStringError what val = Errorf ''%s %q'' [Str what, Str val]"

text \<open>
  The second \<open>for\<close> loop of \<open>ReadRequest\<close>: read lines until the empty one. The lines go
  to standard output and nowhere else; standard output is not part of the model.
\<close>

function ReadRequest_headers :: "reader \<Rightarrow> error option \<times> reader" where
  "ReadRequest_headers br =
     (case ReadLine br of (line, err, br') \<Rightarrow>
        if err \<noteq> None then (err, br')
        else if line = [] then (None, br')
        else ReadRequest_headers br')"
  by pat_completeness auto
termination
  by (relation "measure length") (auto dest: ReadLine_progress [OF sym])

declare ReadRequest_headers.simps [simp del]

text \<open>
  \<open>ReadRequest\<close> returns the pair \<open>(req, err)\<close> of a pointer that may be \<open>nil\<close> and an
  error that may be \<open>nil\<close>, and leaves the reader advanced.
\<close>

definition ReadRequest :: "reader \<Rightarrow> Request option \<times> error option \<times> reader" where
  "ReadRequest br =
     (case ReadLine br of (line, err, br1) \<Rightarrow>
        if err \<noteq> None then (None, err, br1)
        else (case parseRequestLine line of (method, perr) \<Rightarrow>
          if perr \<noteq> None then (None, Some (badStringError ''malformed start line'' line), br1)
          else if \<not> validMethod method
          then (None, Some (badStringError ''invalid method'' method), br1)
          else (case ReadRequest_headers br1 of (herr, br2) \<Rightarrow>
            if herr \<noteq> None then (None, herr, br2)
            else (Some \<lparr>Method = method\<rparr>, None, br2))))"

section \<open>The response writer\<close>

definition responseProto :: string where
  "responseProto = ''HTTP/1.1''"

definition statusOK :: int where
  "statusOK = 200"

definition statusMethodNotAllowed :: int where
  "statusMethodNotAllowed = 405"

definition statusText :: "int \<rightharpoonup> string" where
  "statusText = [statusOK \<mapsto> ''OK'', statusMethodNotAllowed \<mapsto> ''Method Not Allowed'']"

text \<open>Indexing a Go map of strings: a missing key gives the zero value, the empty string.\<close>

definition map_index :: "(int \<rightharpoonup> string) \<Rightarrow> int \<Rightarrow> string" where
  "map_index m k = (case m k of None \<Rightarrow> [] | Some v \<Rightarrow> v)"

record Response =
  StatusCode :: int
  Proto :: string
  FilePath :: string

definition init :: "Response \<Rightarrow> Response" where
  "init res = res\<lparr>Proto := responseProto\<rparr>"

definition HandleOK :: "Response \<Rightarrow> Response" where
  "HandleOK res = (init res)\<lparr>StatusCode := statusOK\<rparr>"

definition HandleBadRequest :: "Response \<Rightarrow> Response" where
  "HandleBadRequest res = (init res)\<lparr>StatusCode := statusMethodNotAllowed, FilePath := []\<rparr>"

text \<open>
  \<open>%v\<close> of an \<open>int\<close>: the decimal digits, with a minus sign for a negative number.
\<close>

fun digits10 :: "nat \<Rightarrow> string" where
  "digits10 n =
     (if n < 10 then [''0123456789'' ! n]
      else digits10 (n div 10) @ [''0123456789'' ! (n mod 10)])"

declare digits10.simps [simp del]

definition FormatInt :: "int \<Rightarrow> string" where
  "FormatInt i = (if i < 0 then CHR ''-'' # digits10 (nat (- i)) else digits10 (nat i))"

text \<open>
  \<open>io.Writer\<close>: the bytes it has taken so far, and the error it answers every write with
  when it is broken. \<open>bufio.Writer\<close> holds bytes back until \<open>Flush\<close>; its size limit only
  moves the moment at which bytes reach the \<open>io.Writer\<close>, so the buffer is unbounded here.
\<close>

record Writer =
  written :: string
  broken :: "error option"

record bufio_Writer =
  buf :: string
  wr :: Writer

definition NewWriter :: "Writer \<Rightarrow> bufio_Writer" where
  "NewWriter w = \<lparr>buf = [], wr = w\<rparr>"

definition WriteString :: "bufio_Writer \<Rightarrow> string \<Rightarrow> error option \<times> bufio_Writer" where
  "WriteString bw s = (None, bw\<lparr>buf := buf bw @ s\<rparr>)"

definition Flush :: "bufio_Writer \<Rightarrow> error option \<times> bufio_Writer" where
  "Flush bw =
     (case broken (wr bw) of
        Some e \<Rightarrow> (Some e, bw)
      | None \<Rightarrow> (None, bw\<lparr>buf := [], wr := (wr bw)\<lparr>written := written (wr bw) @ buf bw\<rparr>\<rparr>))"

definition Write :: "Response \<Rightarrow> Writer \<Rightarrow> error option \<times> Writer" where
  "Write res w =
     (let bw = NewWriter w;
          statusLine = Proto res @ '' '' @ FormatInt (StatusCode res) @ '' ''
                         @ map_index statusText (StatusCode res) @ CRLF
      in case WriteString bw statusLine of (err, bw1) \<Rightarrow>
           if err \<noteq> None then (err, wr bw1)
           else (case Flush bw1 of (err2, bw2) \<Rightarrow>
             if err2 \<noteq> None then (err2, wr bw2) else (None, wr bw2)))"

section \<open>Vocabulary of the specification\<close>

text \<open>
  \<open>has_crlf s\<close>: the two-byte sequence CR LF occurs somewhere in \<open>s\<close>. A line \<open>l\<close> whose
  terminator is the first CRLF of \<open>l @ CRLF\<close> is one with \<open>\<not> has_crlf (l @ [CR])\<close>.
\<close>

fun has_crlf :: "string \<Rightarrow> bool" where
  "has_crlf (a # b # s) \<longleftrightarrow> (a = CR \<and> b = LF) \<or> has_crlf (b # s)"
| "has_crlf _ \<longleftrightarrow> False"

text \<open>A string that ends in neither CR nor LF.\<close>

definition no_trailing_eol :: "string \<Rightarrow> bool" where
  "no_trailing_eol l \<longleftrightarrow> l = [] \<or> (last l \<noteq> CR \<and> last l \<noteq> LF)"

text \<open>
  The wire form of a request this server accepts: the start line \<open>GET SP rest\<close>, then header
  lines, then the empty line, each ended by CR LF. \<open>well_formed\<close> says that every one of these
  lines ends at its own CR LF (none contains an earlier one) and that no header line is empty,
  so that the empty line is the first zero-length line. Nothing else is asked of \<open>rest\<close> or
  of the header lines.
\<close>

definition header_lines :: "string list \<Rightarrow> string" where
  "header_lines hs = concat (map (\<lambda>h. h @ CRLF) hs)"

definition well_formed :: "string \<Rightarrow> string list \<Rightarrow> bool" where
  "well_formed rest hs \<longleftrightarrow>
     \<not> has_crlf (''GET '' @ rest @ [CR]) \<and> list_all (\<lambda>h. h \<noteq> [] \<and> \<not> has_crlf (h @ [CR])) hs"

definition request_text :: "string \<Rightarrow> string list \<Rightarrow> string" where
  "request_text rest hs = ''GET '' @ rest @ CRLF @ header_lines hs @ CRLF"

text \<open>The start line splits on its first space into exactly two parts, neither of them empty.\<close>

definition two_nonempty_parts :: "string \<Rightarrow> bool" where
  "two_nonempty_parts line \<longleftrightarrow>
     (let fields = SplitN line SP 2
      in length fields = 2 \<and> fields ! 0 \<noteq> [] \<and> fields ! 1 \<noteq> [])"

section \<open>ReadLine, byte by byte\<close>

lemma HasSuffix_snoc_LF:
  "HasSuffix (xs @ [LF]) CRLF \<longleftrightarrow> xs \<noteq> [] \<and> last xs = CR"
proof (cases xs rule: rev_cases)
  case Nil
  then show ?thesis by (simp add: HasSuffix_def CRLF_def)
next
  case (snoc ys y)
  then show ?thesis by (simp add: HasSuffix_def CRLF_def)
qed

lemma ReadLine_loop_Nil: "ReadLine_loop line [] = (line, Some EOF, [])"
  by (subst ReadLine_loop.simps) simp

lemma ReadLine_loop_Fail: "ReadLine_loop line (Fail e # br) = (line, Some e, br)"
  by (subst ReadLine_loop.simps) simp

lemma ReadLine_loop_Byte:
  "c \<noteq> LF \<Longrightarrow> ReadLine_loop line (Byte c # br) = ReadLine_loop (line @ [c]) br"
  apply (subst ReadLine_loop.simps)
  apply (subst (2) ReadLine_loop.simps)
  apply (simp split: prod.splits)
  done

lemma ReadLine_loop_LF:
  "ReadLine_loop line (Byte LF # br) =
     (if line \<noteq> [] \<and> last line = CR then (butlast line, None, br)
      else ReadLine_loop (line @ [LF]) br)"
  apply (subst ReadLine_loop.simps)
  apply (simp add: HasSuffix_snoc_LF butlast_conv_take)
  done

lemma has_crlf_append_CRLF: "has_crlf (xs @ CR # LF # ys)"
proof (induction xs)
  case Nil
  show ?case by simp
next
  case (Cons a xs)
  then show ?case by (cases xs) simp_all
qed

lemma has_crlf_snoc:
  "has_crlf (xs @ [c]) \<longleftrightarrow> has_crlf xs \<or> (xs \<noteq> [] \<and> last xs = CR \<and> c = LF)"
proof (induction xs rule: has_crlf.induct)
  case (1 a b s)
  then show ?case by auto
qed simp_all

lemma has_crlf_index:
  "has_crlf xs \<Longrightarrow> \<exists>j. Suc j < length xs \<and> xs ! j = CR \<and> xs ! Suc j = LF"
proof (induction xs rule: has_crlf.induct)
  case (1 a b s)
  show ?case
  proof (cases "a = CR \<and> b = LF")
    case True
    then have "Suc 0 < length (a # b # s) \<and> (a # b # s) ! 0 = CR \<and> (a # b # s) ! Suc 0 = LF"
      by simp
    then show ?thesis by blast
  next
    case False
    with "1.prems" have "has_crlf (b # s)" by simp
    with "1.IH" obtain j where "Suc j < length (b # s)" "(b # s) ! j = CR" "(b # s) ! Suc j = LF"
      by blast
    then have "Suc (Suc j) < length (a # b # s) \<and> (a # b # s) ! Suc j = CR
        \<and> (a # b # s) ! Suc (Suc j) = LF"
      by simp
    then show ?thesis by blast
  qed
qed simp_all

text \<open>Bytes that complete no CRLF are only accumulated.\<close>

lemma ReadLine_loop_accumulate:
  "\<not> has_crlf (line @ bs) \<Longrightarrow>
     ReadLine_loop line (map Byte bs @ br) = ReadLine_loop (line @ bs) br"
proof (induction bs arbitrary: line)
  case Nil
  show ?case by simp
next
  case (Cons c bs)
  from Cons.prems have nxt: "\<not> has_crlf ((line @ [c]) @ bs)" by simp
  show ?case
  proof (cases "c = LF")
    case False
    with Cons.IH [OF nxt] show ?thesis by (simp add: ReadLine_loop_Byte)
  next
    case True
    have "\<not> (line \<noteq> [] \<and> last line = CR)"
    proof
      assume "line \<noteq> [] \<and> last line = CR"
      then have "line = butlast line @ [CR]" by (metis append_butlast_last_id)
      then have "line @ c # bs = butlast line @ CR # LF # bs" using True
        by (metis append.assoc append_Cons append_Nil)
      with has_crlf_append_CRLF [of "butlast line" bs] Cons.prems show False by simp
    qed
    then have "ReadLine_loop line (Byte LF # map Byte bs @ br)
        = ReadLine_loop (line @ [LF]) (map Byte bs @ br)"
      by (subst ReadLine_loop_LF) (rule if_not_P)
    with True Cons.IH [OF nxt] show ?thesis by simp
  qed
qed

lemma ReadLine_eof:
  "\<not> has_crlf bs \<Longrightarrow> ReadLine (map Byte bs) = (bs, Some EOF, [])"
  using ReadLine_loop_accumulate [of "[]" bs "[]"]
  by (simp add: ReadLine_def ReadLine_loop_Nil)

lemma ReadLine_fail:
  "\<not> has_crlf bs \<Longrightarrow> ReadLine (map Byte bs @ Fail e # br) = (bs, Some e, br)"
  using ReadLine_loop_accumulate [of "[]" bs "Fail e # br"]
  by (simp add: ReadLine_def ReadLine_loop_Fail)

lemma ReadLine_line:
  "\<not> has_crlf (l @ [CR]) \<Longrightarrow> ReadLine (map Byte (l @ CRLF) @ br) = (l, None, br)"
  using ReadLine_loop_accumulate [of "[]" "l @ [CR]" "Byte LF # br"]
  by (simp add: ReadLine_def ReadLine_loop_LF CRLF_def)

lemma ReadLine_loop_success:
  "ReadLine_loop line br = (l, None, br') \<Longrightarrow>
     \<exists>bs. br = map Byte bs @ br' \<and> line @ bs = l @ CRLF"
proof (induction br arbitrary: line)
  case Nil
  then show ?case by (simp add: ReadLine_loop_Nil)
next
  case (Cons ev br)
  show ?case
  proof (cases ev)
    case (Fail e)
    with Cons.prems show ?thesis by (simp add: ReadLine_loop_Fail)
  next
    case (Byte c)
    show ?thesis
    proof (cases "c = LF \<and> line \<noteq> [] \<and> last line = CR")
      case True
      with Byte Cons.prems have "l = butlast line" "br' = br"
        by (simp_all add: ReadLine_loop_LF)
      with True have "line @ [c] = l @ CRLF"
        by (simp add: CRLF_def) (metis append_butlast_last_id)
      with Byte \<open>br' = br\<close> have "ev # br = map Byte [c] @ br' \<and> line @ [c] = l @ CRLF"
        by simp
      then show ?thesis by blast
    next
      case False
      with Byte Cons.prems have "ReadLine_loop (line @ [c]) br = (l, None, br')"
        by (cases "c = LF") (auto simp: ReadLine_loop_LF ReadLine_loop_Byte)
      from Cons.IH [OF this] obtain bs where "br = map Byte bs @ br'" "(line @ [c]) @ bs = l @ CRLF"
        by blast
      with Byte have "ev # br = map Byte (c # bs) @ br' \<and> line @ (c # bs) = l @ CRLF"
        by simp
      then show ?thesis by blast
    qed
  qed
qed

lemma ReadLine_success:
  "ReadLine br = (l, None, br') \<Longrightarrow> br = map Byte (l @ CRLF) @ br'"
  using ReadLine_loop_success [of "[]" br l br'] by (auto simp: ReadLine_def)

lemma ReadLine_loop_first:
  "ReadLine_loop line br = (l, None, br') \<Longrightarrow> \<not> has_crlf line \<Longrightarrow> \<not> has_crlf (l @ [CR])"
proof (induction br arbitrary: line)
  case Nil
  then show ?case by (simp add: ReadLine_loop_Nil)
next
  case (Cons ev br)
  show ?case
  proof (cases ev)
    case (Fail e)
    with Cons.prems show ?thesis by (simp add: ReadLine_loop_Fail)
  next
    case (Byte c)
    show ?thesis
    proof (cases "c = LF \<and> line \<noteq> [] \<and> last line = CR")
      case True
      with Byte Cons.prems have "l = butlast line"
        by (simp add: ReadLine_loop_LF)
      with True have "l @ [CR] = line"
        by (metis append_butlast_last_id)
      with Cons.prems show ?thesis by simp
    next
      case False
      with Byte Cons.prems have "ReadLine_loop (line @ [c]) br = (l, None, br')"
        by (cases "c = LF") (auto simp: ReadLine_loop_LF ReadLine_loop_Byte)
      moreover from False Cons.prems have "\<not> has_crlf (line @ [c])"
        by (auto simp: has_crlf_snoc)
      ultimately show ?thesis by (rule Cons.IH)
    qed
  qed
qed

section \<open>Properties of ReadLine\<close>

text \<open>
  Claim C2, as far as it holds. When the first occurrence of CR LF in the byte sequence \<open>bs\<close> is
  at position \<open>k\<close>, \<open>ReadLine\<close> returns exactly the \<open>k\<close> bytes before it, returns no
  error, and leaves the reader exactly after that CR LF, whatever follows (\<open>br\<close>). The returned
  prefix contains no CR LF; it may still end in a CR or an LF of its own.
\<close>

theorem ReadLine_first_CRLF:
  assumes k: "Suc k < length bs" "bs ! k = CR" "bs ! Suc k = LF"
    and first: "\<forall>j<k. \<not> (bs ! j = CR \<and> bs ! Suc j = LF)"
  shows "ReadLine (map Byte bs @ br) = (take k bs, None, map Byte (drop (k + 2) bs) @ br)"
proof -
  have no: "\<not> has_crlf (take k bs @ [CR])"
  proof
    assume "has_crlf (take k bs @ [CR])"
    then obtain j where j: "Suc j < length (take k bs @ [CR])"
        "(take k bs @ [CR]) ! j = CR" "(take k bs @ [CR]) ! Suc j = LF"
      using has_crlf_index by blast
    from k have tk: "take k bs @ [CR] = take (Suc k) bs"
      by (simp add: take_Suc_conv_app_nth)
    from j(1) k(1) have "j < k" by simp
    with j tk have "bs ! j = CR \<and> bs ! Suc j = LF" by simp
    with first \<open>j < k\<close> show False by blast
  qed
  from k have "bs = take k bs @ CR # LF # drop (k + 2) bs"
    by (metis Cons_nth_drop_Suc Suc_lessD add_2_eq_Suc' append_take_drop_id)
  then have "map Byte bs @ br = map Byte (take k bs @ CRLF) @ (map Byte (drop (k + 2) bs) @ br)"
    by (simp add: CRLF_def) (metis map_append list.simps(9))
  with ReadLine_line [OF no] show ?thesis by simp
qed

theorem ReadLine_first_CRLF_witness:
  "Suc 1 < length (''a'' @ CRLF @ ''b'') \<and> (''a'' @ CRLF @ ''b'') ! 1 = CR
   \<and> (''a'' @ CRLF @ ''b'') ! Suc 1 = LF
   \<and> \<not> ((''a'' @ CRLF @ ''b'') ! 0 = CR \<and> (''a'' @ CRLF @ ''b'') ! Suc 0 = LF)
   \<and> ReadLine (map Byte (''a'' @ CRLF @ ''b'')) = (''a'', None, [Byte CHR ''b''])"
  using ReadLine_first_CRLF [of 1 "''a'' @ CRLF @ ''b''" "[]"]
  by (simp add: CRLF_def)

text \<open>
  Claim C2 as stated also says that the returned prefix has no trailing CR or LF. On the
  bytes \<open>a CR CR LF\<close> the first CR LF is at position 2 and the line returned is \<open>a CR\<close>.
\<close>

theorem ReadLine_trailing_CR_counterexample:
  "ReadLine (map Byte (''a'' @ [CR] @ CRLF)) = (''a'' @ [CR], None, [])
   \<and> \<not> no_trailing_eol (''a'' @ [CR])"
  by (simp add: ReadLine_def ReadLine_loop_Byte ReadLine_loop_LF CRLF_def no_trailing_eol_def)

text \<open>
  Claim C5. CR LF is the only terminator. \<open>ReadLine\<close> returns a line without error exactly
  when what it consumed were bytes, namely the returned line followed by CR LF, that CR LF
  being the first one: it never stops with success at an LF that no CR precedes. And bytes
  among which no CR LF occurs (lines ended by a bare LF, for instance) never make a line: all
  of them are accumulated up to the end of the stream and come back together with the
  end-of-stream error.
\<close>

theorem ReadLine_only_CRLF_terminates:
  "(ReadLine br = (l, None, br') \<longleftrightarrow> br = map Byte (l @ CRLF) @ br' \<and> \<not> has_crlf (l @ [CR]))
   \<and> (\<not> has_crlf bs \<longrightarrow> ReadLine (map Byte bs) = (bs, Some EOF, []))"
proof -
  have "\<not> has_crlf (l @ [CR])" if "ReadLine br = (l, None, br')"
    using that ReadLine_loop_first [of "[]" br l br'] by (simp add: ReadLine_def)
  then show ?thesis
    using ReadLine_success ReadLine_line ReadLine_eof by blast
qed

theorem ReadLine_only_CRLF_terminates_witness:
  "ReadLine (map Byte (''a'' @ [LF] @ ''b'' @ CRLF)) = (''a'' @ [LF] @ ''b'', None, [])
   \<and> \<not> has_crlf (''a'' @ [LF] @ ''b'')
   \<and> ReadLine (map Byte (''a'' @ [LF] @ ''b'')) = (''a'' @ [LF] @ ''b'', Some EOF, [])"
  using ReadLine_only_CRLF_terminates [of "map Byte (''a'' @ [LF] @ ''b'' @ CRLF)"
      "''a'' @ [LF] @ ''b''" "[]" "''a'' @ [LF] @ ''b''"]
  by (simp add: ReadLine_def ReadLine_loop_Byte ReadLine_loop_LF CRLF_def)

text \<open>
  Claim C6. A stream that ends, or reports an error, before any CR LF was found: \<open>ReadLine\<close>
  returns the bytes accumulated so far together with that very error. At the end of the
  stream the text returned is exactly the unterminated trailing bytes; it is empty exactly
  when nothing was left (\<open>bs = []\<close>), the clean close.
\<close>

theorem ReadLine_error_returns_partial:
  "\<not> has_crlf bs \<Longrightarrow>
     ReadLine (map Byte bs) = (bs, Some EOF, [])
     \<and> ReadLine (map Byte bs @ Fail e # br) = (bs, Some e, br)"
  by (simp add: ReadLine_eof ReadLine_fail)

theorem ReadLine_error_returns_partial_witness:
  "\<not> has_crlf ''Host: te''
   \<and> ReadLine (map Byte ''Host: te'') = (''Host: te'', Some EOF, [])
   \<and> ReadLine (map Byte ''Host: te'' @ Fail Timeout # [Byte CHR ''s'']) = (''Host: te'', Some Timeout, [Byte CHR ''s''])"
  using ReadLine_error_returns_partial [of "''Host: te''" Timeout "[Byte CHR ''s'']"]
  by simp

section \<open>The request parser, line by line\<close>

lemma SplitN_2:
  "SplitN s sep 2 =
     (if sep \<in> set s then [takeWhile (\<lambda>c. c \<noteq> sep) s, tl (dropWhile (\<lambda>c. c \<noteq> sep) s)]
      else [s])"
  by (simp add: numeral_2_eq_2)

lemma parseRequestLine_space:
  "SP \<in> set line \<Longrightarrow> parseRequestLine line = (takeWhile (\<lambda>c. c \<noteq> SP) line, None)"
  by (simp add: parseRequestLine_def SplitN_2)

lemma ReadRequest_headers_blank:
  "ReadRequest_headers (map Byte CRLF @ br) = (None, br)"
  using ReadLine_line [of "[]" br]
  by (subst ReadRequest_headers.simps) simp

lemma ReadRequest_headers_line:
  "h \<noteq> [] \<Longrightarrow> \<not> has_crlf (h @ [CR]) \<Longrightarrow>
     ReadRequest_headers (map Byte (h @ CRLF) @ br) = ReadRequest_headers br"
  using ReadLine_line [of h br]
  by (subst ReadRequest_headers.simps) simp

lemma ReadRequest_headers_block:
  "list_all (\<lambda>h. h \<noteq> [] \<and> \<not> has_crlf (h @ [CR])) hs \<Longrightarrow>
     ReadRequest_headers (map Byte (header_lines hs) @ br) = ReadRequest_headers br"
proof (induction hs)
  case Nil
  show ?case by (simp add: header_lines_def)
next
  case (Cons h hs)
  then have h: "h \<noteq> []" "\<not> has_crlf (h @ [CR])"
    and rest: "ReadRequest_headers (map Byte (header_lines hs) @ br) = ReadRequest_headers br"
    by simp_all
  have "map Byte (header_lines (h # hs)) @ br
      = map Byte (h @ CRLF) @ (map Byte (header_lines hs) @ br)"
    by (simp add: header_lines_def)
  with ReadRequest_headers_line [OF h] rest show ?case by simp
qed

lemma ReadRequest_headers_eof:
  "\<not> has_crlf bs \<Longrightarrow> ReadRequest_headers (map Byte bs) = (Some EOF, [])"
  by (subst ReadRequest_headers.simps) (simp add: ReadLine_eof)

lemma ReadRequest_headers_fail:
  "\<not> has_crlf bs \<Longrightarrow> ReadRequest_headers (map Byte bs @ Fail e # br) = (Some e, br)"
  by (subst ReadRequest_headers.simps) (simp add: ReadLine_fail)

lemma ReadRequest_start_line:
  assumes "\<not> has_crlf (''GET '' @ rest @ [CR])"
  shows "ReadRequest (map Byte (''GET '' @ rest @ CRLF) @ br) =
     (case ReadRequest_headers br of (herr, br2) \<Rightarrow>
        if herr \<noteq> None then (None, herr, br2) else (Some \<lparr>Method = ''GET''\<rparr>, None, br2))"
proof -
  from assms have "ReadLine (map Byte ((''GET '' @ rest) @ CRLF) @ br) = (''GET '' @ rest, None, br)"
    by (intro ReadLine_line) simp
  moreover have "parseRequestLine (''GET '' @ rest) = (''GET'', None)"
    by (simp add: parseRequestLine_space)
  ultimately show ?thesis
    by (simp add: ReadRequest_def validMethod_def)
qed

lemma ReadRequest_well_formed:
  assumes "well_formed rest hs"
  shows "ReadRequest (map Byte (request_text rest hs) @ br) = (Some \<lparr>Method = ''GET''\<rparr>, None, br)"
proof -
  from assms have sl: "\<not> has_crlf (''GET '' @ rest @ [CR])"
    and hs: "list_all (\<lambda>h. h \<noteq> [] \<and> \<not> has_crlf (h @ [CR])) hs"
    by (simp_all add: well_formed_def)
  have "map Byte (request_text rest hs) @ br
      = map Byte (''GET '' @ rest @ CRLF) @ (map Byte (header_lines hs) @ (map Byte CRLF @ br))"
    by (simp add: request_text_def)
  then have "ReadRequest (map Byte (request_text rest hs) @ br)
      = ReadRequest (map Byte (''GET '' @ rest @ CRLF) @ (map Byte (header_lines hs) @ (map Byte CRLF @ br)))"
    by (rule arg_cong)
  also have "\<dots> = (Some \<lparr>Method = ''GET''\<rparr>, None, br)"
    by (simp only: ReadRequest_start_line [OF sl] ReadRequest_headers_block [OF hs]
        ReadRequest_headers_blank) simp
  finally show ?thesis .
qed

lemma ReadRequest_truncated:
  assumes "well_formed rest hs" and "\<not> has_crlf bs"
  shows "ReadRequest (map Byte (''GET '' @ rest @ CRLF @ header_lines hs @ bs)) = (None, Some EOF, [])"
    and "ReadRequest (map Byte (''GET '' @ rest @ CRLF @ header_lines hs @ bs) @ Fail e # br)
           = (None, Some e, br)"
proof -
  from assms have sl: "\<not> has_crlf (''GET '' @ rest @ [CR])"
    and hs: "list_all (\<lambda>h. h \<noteq> [] \<and> \<not> has_crlf (h @ [CR])) hs"
    by (simp_all add: well_formed_def)
  have "map Byte (''GET '' @ rest @ CRLF @ header_lines hs @ bs)
      = map Byte (''GET '' @ rest @ CRLF) @ (map Byte (header_lines hs) @ map Byte bs)"
    by simp
  then have "ReadRequest (map Byte (''GET '' @ rest @ CRLF @ header_lines hs @ bs))
      = ReadRequest (map Byte (''GET '' @ rest @ CRLF) @ (map Byte (header_lines hs) @ map Byte bs))"
    by (rule arg_cong)
  also have "\<dots> = (None, Some EOF, [])"
    by (simp only: ReadRequest_start_line [OF sl] ReadRequest_headers_block [OF hs]
        ReadRequest_headers_eof [OF assms(2)]) simp
  finally show "ReadRequest (map Byte (''GET '' @ rest @ CRLF @ header_lines hs @ bs)) = (None, Some EOF, [])" .
  have "map Byte (''GET '' @ rest @ CRLF @ header_lines hs @ bs) @ Fail e # br
      = map Byte (''GET '' @ rest @ CRLF) @ (map Byte (header_lines hs) @ (map Byte bs @ Fail e # br))"
    by simp
  then have "ReadRequest (map Byte (''GET '' @ rest @ CRLF @ header_lines hs @ bs) @ Fail e # br)
      = ReadRequest (map Byte (''GET '' @ rest @ CRLF) @ (map Byte (header_lines hs) @ (map Byte bs @ Fail e # br)))"
    by (rule arg_cong)
  also have "\<dots> = (None, Some e, br)"
    by (simp only: ReadRequest_start_line [OF sl] ReadRequest_headers_block [OF hs]
        ReadRequest_headers_fail [OF assms(2)]) simp
  finally show "ReadRequest (map Byte (''GET '' @ rest @ CRLF @ header_lines hs @ bs) @ Fail e # br)
           = (None, Some e, br)" .
qed

lemma ReadRequest_Nil: "ReadRequest [] = (None, Some EOF, [])"
  by (simp add: ReadRequest_def ReadLine_def ReadLine_loop_Nil)

section \<open>Properties of ReadRequest\<close>

text \<open>
  Claim C1. On every input stream: when \<open>ReadRequest\<close> returns no error, it returns a request
  and that request's \<open>Method\<close> is exactly \<open>GET\<close>; when it returns an error, the request
  it returns is \<open>nil\<close>.
\<close>

theorem ReadRequest_result_invariant:
  "ReadRequest br = (req, err, br') \<Longrightarrow>
     (err = None \<longrightarrow> map_option Method req = Some ''GET'') \<and> (err \<noteq> None \<longrightarrow> req = None)"
  by (auto simp: ReadRequest_def validMethod_def split: prod.splits if_splits)

theorem ReadRequest_result_invariant_witness:
  "ReadRequest (map Byte (''GET /index.html HTTP/1.1'' @ CRLF @ ''Host: test'' @ CRLF @ CRLF))
     = (Some \<lparr>Method = ''GET''\<rparr>, None, [])
   \<and> map_option Method (Some \<lparr>Method = ''GET''\<rparr>) = Some ''GET''
   \<and> ReadRequest (map Byte (''POST /index.html HTTP/1.1'' @ CRLF @ ''Host: test'' @ CRLF @ CRLF))
     = (None, Some (badStringError ''invalid method'' ''POST''),
        map Byte (''Host: test'' @ CRLF @ CRLF))"
proof -
  have good: "ReadRequest (map Byte (''GET /index.html HTTP/1.1'' @ CRLF @ ''Host: test'' @ CRLF @ CRLF))
     = (Some \<lparr>Method = ''GET''\<rparr>, None, [])"
    by code_simp
  have bad: "ReadRequest (map Byte (''POST /index.html HTTP/1.1'' @ CRLF @ ''Host: test'' @ CRLF @ CRLF))
     = (None, Some (badStringError ''invalid method'' ''POST''),
        map Byte (''Host: test'' @ CRLF @ CRLF))"
    by code_simp
  from ReadRequest_result_invariant [OF good] ReadRequest_result_invariant [OF bad] good bad
  show ?thesis by simp
qed

text \<open>
  Claim C3, as far as it holds. When splitting the first line on its first space does not
  give exactly two parts (the line holds no space), \<open>ReadRequest\<close> fails with the
  malformed-start-line error that carries the raw line. The input that is only CR LF is such a
  case: the empty first line splits into one field.
\<close>

theorem ReadRequest_malformed_start_line:
  "(ReadLine br = (line, None, br') \<and> length (SplitN line SP 2) \<noteq> 2 \<longrightarrow>
      ReadRequest br = (None, Some (badStringError ''malformed start line'' line), br'))
   \<and> ReadRequest (map Byte CRLF) = (None, Some (badStringError ''malformed start line'' []), [])"
proof -
  have "ReadLine (map Byte ([] @ CRLF) @ []) = ([], None, [])"
    by (rule ReadLine_line) simp
  then show ?thesis
    by (simp add: ReadRequest_def parseRequestLine_def SplitN_2)
qed

theorem ReadRequest_malformed_start_line_witness:
  "ReadLine (map Byte (''index.html'' @ CRLF @ CRLF)) = (''index.html'', None, map Byte CRLF)
   \<and> length (SplitN ''index.html'' SP 2) \<noteq> 2
   \<and> ReadRequest (map Byte (''index.html'' @ CRLF @ CRLF))
       = (None, Some (badStringError ''malformed start line'' ''index.html''), map Byte CRLF)"
proof -
  have l: "ReadLine (map Byte (''index.html'' @ CRLF @ CRLF)) = (''index.html'', None, map Byte CRLF)"
    by code_simp
  have n: "length (SplitN ''index.html'' SP 2) \<noteq> 2"
    by (simp add: SplitN_2)
  from ReadRequest_malformed_start_line [of "map Byte (''index.html'' @ CRLF @ CRLF)"
      "''index.html''" "map Byte CRLF"] l n
  show ?thesis by simp
qed

text \<open>
  Claim C3 as stated asks for two non-empty parts. The first line \<open>GET SP\<close> splits into
  \<open>GET\<close> and an empty remainder, which are not two non-empty parts, and the parse succeeds.
\<close>

theorem ReadRequest_empty_part_counterexample:
  "ReadLine (map Byte (''GET '' @ CRLF @ CRLF)) = (''GET '', None, map Byte CRLF)
   \<and> \<not> two_nonempty_parts ''GET ''
   \<and> ReadRequest (map Byte (''GET '' @ CRLF @ CRLF)) = (Some \<lparr>Method = ''GET''\<rparr>, None, [])"
proof -
  have "ReadLine (map Byte (''GET '' @ CRLF @ CRLF)) = (''GET '', None, map Byte CRLF)"
    by code_simp
  moreover have "\<not> two_nonempty_parts ''GET ''"
    by (simp add: two_nonempty_parts_def SplitN_2)
  moreover have "ReadRequest (map Byte (''GET '' @ CRLF @ CRLF)) = (Some \<lparr>Method = ''GET''\<rparr>, None, [])"
    by code_simp
  ultimately show ?thesis by simp
qed

text \<open>
  Claim C4. When the first line splits on its first space into two parts and the first one,
  the method token, is any string other than \<open>GET\<close>, \<open>ReadRequest\<close> fails with the
  invalid-method error that carries that token; the reader stays right after the first line.
\<close>

theorem ReadRequest_invalid_method:
  "ReadLine br = (line, None, br') \<Longrightarrow> SplitN line SP 2 = [tok, rest] \<Longrightarrow> tok \<noteq> ''GET'' \<Longrightarrow>
     ReadRequest br = (None, Some (badStringError ''invalid method'' tok), br')"
  by (simp add: ReadRequest_def parseRequestLine_def validMethod_def)

theorem ReadRequest_invalid_method_witness:
  "ReadLine (map Byte (''GETT /index.html HTTP/1.1'' @ CRLF @ ''Host: test'' @ CRLF @ CRLF))
     = (''GETT /index.html HTTP/1.1'', None, map Byte (''Host: test'' @ CRLF @ CRLF))
   \<and> SplitN ''GETT /index.html HTTP/1.1'' SP 2 = [''GETT'', ''/index.html HTTP/1.1'']
   \<and> ''GETT'' \<noteq> ''GET''
   \<and> ReadRequest (map Byte (''GETT /index.html HTTP/1.1'' @ CRLF @ ''Host: test'' @ CRLF @ CRLF))
     = (None, Some (badStringError ''invalid method'' ''GETT''),
        map Byte (''Host: test'' @ CRLF @ CRLF))"
proof -
  have l: "ReadLine (map Byte (''GETT /index.html HTTP/1.1'' @ CRLF @ ''Host: test'' @ CRLF @ CRLF))
     = (''GETT /index.html HTTP/1.1'', None, map Byte (''Host: test'' @ CRLF @ CRLF))"
    by code_simp
  have s: "SplitN ''GETT /index.html HTTP/1.1'' SP 2 = [''GETT'', ''/index.html HTTP/1.1'']"
    by (simp add: SplitN_2)
  have n: "''GETT'' \<noteq> ''GET''" by simp
  from ReadRequest_invalid_method [OF l s n] l s n show ?thesis by simp
qed

text \<open>
  Claim C7. After a valid start line the header lines are read and dropped up to the first
  empty line, and nothing in them can make the parse fail: with arbitrary non-empty header
  lines followed by the empty line the parse succeeds and stops right after the empty line.
  When instead the stream ends, or reports an error \<open>e\<close>, before the empty line was read,
  that error comes back unchanged and no request is returned.
\<close>

theorem ReadRequest_headers_discarded:
  assumes "well_formed rest hs"
  shows "ReadRequest (map Byte (''GET '' @ rest @ CRLF @ header_lines hs @ CRLF) @ br)
           = (Some \<lparr>Method = ''GET''\<rparr>, None, br)
     \<and> (\<not> has_crlf bs \<longrightarrow>
          ReadRequest (map Byte (''GET '' @ rest @ CRLF @ header_lines hs @ bs))
            = (None, Some EOF, [])
          \<and> ReadRequest (map Byte (''GET '' @ rest @ CRLF @ header_lines hs @ bs) @ Fail e # br)
            = (None, Some e, br))"
  using ReadRequest_well_formed [OF assms, of br] ReadRequest_truncated [OF assms, of bs]
  by (simp add: request_text_def)

theorem ReadRequest_headers_discarded_witness:
  "well_formed ''/ HTTP/1.1'' [''Host test'', '': : :'']
   \<and> ReadRequest (map Byte (''GET '' @ ''/ HTTP/1.1'' @ CRLF
          @ header_lines [''Host test'', '': : :''] @ CRLF))
        = (Some \<lparr>Method = ''GET''\<rparr>, None, [])
   \<and> \<not> has_crlf ''Accept: */''
   \<and> ReadRequest (map Byte (''GET '' @ ''/ HTTP/1.1'' @ CRLF
          @ header_lines [''Host test'', '': : :''] @ ''Accept: */''))
        = (None, Some EOF, [])
   \<and> ReadRequest (map Byte (''GET '' @ ''/ HTTP/1.1'' @ CRLF
          @ header_lines [''Host test'', '': : :''] @ ''Accept: */'') @ [Fail Timeout])
        = (None, Some Timeout, [])"
proof -
  have w: "well_formed ''/ HTTP/1.1'' [''Host test'', '': : :'']"
    by (simp add: well_formed_def)
  have n: "\<not> has_crlf ''Accept: */''" by simp
  from ReadRequest_headers_discarded [OF w, of "[]" "''Accept: */''" Timeout] w n
  show ?thesis by simp
qed

text \<open>
  Claim C8. One call consumes the bytes of one request and no more: after a well-formed
  request the reader is exactly at what followed it. So on two requests back to back, two
  calls in sequence on the same reader each return the request with method \<open>GET\<close> and no
  error; and on one request followed by the end of the stream, the first call succeeds and
  the second returns the end-of-stream error.
\<close>

theorem ReadRequest_one_request_per_call:
  assumes "well_formed rest1 hs1" and "well_formed rest2 hs2"
  shows "ReadRequest (map Byte (request_text rest1 hs1) @ br) = (Some \<lparr>Method = ''GET''\<rparr>, None, br)
     \<and> (case ReadRequest (map Byte (request_text rest1 hs1 @ request_text rest2 hs2)) of
          (req1, err1, br1) \<Rightarrow>
            req1 = Some \<lparr>Method = ''GET''\<rparr> \<and> err1 = None
            \<and> ReadRequest br1 = (Some \<lparr>Method = ''GET''\<rparr>, None, []))
     \<and> (case ReadRequest (map Byte (request_text rest1 hs1)) of
          (req1, err1, br1) \<Rightarrow>
            req1 = Some \<lparr>Method = ''GET''\<rparr> \<and> err1 = None
            \<and> ReadRequest br1 = (None, Some EOF, []))"
proof -
  have one: "ReadRequest (map Byte (request_text rest1 hs1) @ br) = (Some \<lparr>Method = ''GET''\<rparr>, None, br)" for br
    by (rule ReadRequest_well_formed [OF assms(1)])
  have two: "ReadRequest (map Byte (request_text rest2 hs2)) = (Some \<lparr>Method = ''GET''\<rparr>, None, [])"
    using ReadRequest_well_formed [OF assms(2), of "[]"] by simp
  have "ReadRequest (map Byte (request_text rest1 hs1 @ request_text rest2 hs2))
      = (Some \<lparr>Method = ''GET''\<rparr>, None, map Byte (request_text rest2 hs2))"
    using one [of "map Byte (request_text rest2 hs2)"] by simp
  moreover have "ReadRequest (map Byte (request_text rest1 hs1)) = (Some \<lparr>Method = ''GET''\<rparr>, None, [])"
    using one [of "[]"] by simp
  ultimately show ?thesis
    using one two by (simp add: ReadRequest_Nil)
qed

theorem ReadRequest_one_request_per_call_witness:
  "well_formed ''/index.html HTTP/1.1'' [''Host: test'']
   \<and> request_text ''/index.html HTTP/1.1'' [''Host: test'']
       = ''GET /index.html HTTP/1.1'' @ CRLF @ ''Host: test'' @ CRLF @ CRLF
   \<and> fst (ReadRequest (map Byte ((''GET /index.html HTTP/1.1'' @ CRLF @ ''Host: test'' @ CRLF @ CRLF)
          @ (''GET /index.html HTTP/1.1'' @ CRLF @ ''Host: test'' @ CRLF @ CRLF))))
       = Some \<lparr>Method = ''GET''\<rparr>
   \<and> ReadRequest (snd (snd (ReadRequest (map Byte ((''GET /index.html HTTP/1.1'' @ CRLF @ ''Host: test'' @ CRLF @ CRLF)
          @ (''GET /index.html HTTP/1.1'' @ CRLF @ ''Host: test'' @ CRLF @ CRLF))))))
       = (Some \<lparr>Method = ''GET''\<rparr>, None, [])
   \<and> ReadRequest (snd (snd (ReadRequest
          (map Byte (''GET /index.html HTTP/1.1'' @ CRLF @ ''Host: test'' @ CRLF @ CRLF)))))
       = (None, Some EOF, [])"
proof -
  have w: "well_formed ''/index.html HTTP/1.1'' [''Host: test'']"
    by (simp add: well_formed_def)
  have t: "request_text ''/index.html HTTP/1.1'' [''Host: test'']
       = ''GET /index.html HTTP/1.1'' @ CRLF @ ''Host: test'' @ CRLF @ CRLF"
    by (simp add: request_text_def header_lines_def)
  from ReadRequest_one_request_per_call [OF w w, of "[]"] w t
  show ?thesis by (auto split: prod.splits)
qed

section \<open>Properties of Response.Write\<close>

lemma Write_healthy:
  "broken w = None \<Longrightarrow>
     Write res w =
       (None, w\<lparr>written := written w @ Proto res @ '' '' @ FormatInt (StatusCode res) @ '' ''
                  @ map_index statusText (StatusCode res) @ CRLF\<rparr>)"
  by (simp add: Write_def NewWriter_def WriteString_def Flush_def)

lemma FormatInt_200: "FormatInt 200 = ''200''"
  by (simp add: FormatInt_def digits10.simps)

lemma FormatInt_405: "FormatInt 405 = ''405''"
  by (simp add: FormatInt_def digits10.simps)

lemma map_index_unmapped:
  "c \<noteq> 200 \<Longrightarrow> c \<noteq> 405 \<Longrightarrow> map_index statusText c = []"
  by (simp add: map_index_def statusText_def statusOK_def statusMethodNotAllowed_def)

text \<open>
  Claim C9. On a writer that takes the bytes, \<open>Write\<close> on a response prepared by
  \<open>HandleOK\<close> emits exactly \<open>HTTP/1.1 200 OK\<close> CR LF, and on one prepared by
  \<open>HandleBadRequest\<close> exactly \<open>HTTP/1.1 405 Method Not Allowed\<close> CR LF: no header line
  and no body follow.
\<close>

theorem Write_status_lines:
  "broken w = None \<Longrightarrow>
     Write (HandleOK res) w = (None, w\<lparr>written := written w @ ''HTTP/1.1 200 OK'' @ CRLF\<rparr>)
     \<and> Write (HandleBadRequest res) w
         = (None, w\<lparr>written := written w @ ''HTTP/1.1 405 Method Not Allowed'' @ CRLF\<rparr>)"
  by (simp add: Write_healthy HandleOK_def HandleBadRequest_def init_def responseProto_def
      statusOK_def statusMethodNotAllowed_def statusText_def map_index_def
      FormatInt_200 FormatInt_405)

theorem Write_status_lines_witness:
  "broken \<lparr>written = [], broken = None\<rparr> = None
   \<and> Write (HandleOK \<lparr>StatusCode = 0, Proto = [], FilePath = []\<rparr>) \<lparr>written = [], broken = None\<rparr>
       = (None, \<lparr>written = ''HTTP/1.1 200 OK'' @ CRLF, broken = None\<rparr>)
   \<and> Write (HandleBadRequest \<lparr>StatusCode = 0, Proto = [], FilePath = []\<rparr>)
         \<lparr>written = [], broken = None\<rparr>
       = (None, \<lparr>written = ''HTTP/1.1 405 Method Not Allowed'' @ CRLF, broken = None\<rparr>)"
  using Write_status_lines [of "\<lparr>written = [], broken = None\<rparr>"
      "\<lparr>StatusCode = 0, Proto = [], FilePath = []\<rparr>"]
  by simp

text \<open>
  Claim C10, as far as it holds. For a response whose status code is neither 200 nor 405,
  \<open>Write\<close> neither fails nor leaves the line out: it emits the protocol field, a space, the
  code in decimal, a space and CR LF, the reason phrase being the empty string. The protocol
  field is \<open>HTTP/1.1\<close> once \<open>init\<close> has set it.
\<close>

theorem Write_unmapped_status:
  assumes "StatusCode res \<noteq> 200" and "StatusCode res \<noteq> 405" and "broken w = None"
  shows "Write res w
           = (None, w\<lparr>written := written w @ Proto res @ '' '' @ FormatInt (StatusCode res)
                         @ '' '' @ CRLF\<rparr>)
     \<and> Write (init res) w
           = (None, w\<lparr>written := written w @ ''HTTP/1.1 '' @ FormatInt (StatusCode res)
                         @ '' '' @ CRLF\<rparr>)"
  using assms
  by (simp add: Write_healthy map_index_unmapped init_def responseProto_def)

theorem Write_unmapped_status_witness:
  "StatusCode \<lparr>StatusCode = 404, Proto = ''HTTP/1.0'', FilePath = []\<rparr> \<noteq> 200
   \<and> StatusCode \<lparr>StatusCode = 404, Proto = ''HTTP/1.0'', FilePath = []\<rparr> \<noteq> 405
   \<and> broken \<lparr>written = [], broken = None\<rparr> = None
   \<and> Write \<lparr>StatusCode = 404, Proto = ''HTTP/1.0'', FilePath = []\<rparr> \<lparr>written = [], broken = None\<rparr>
       = (None, \<lparr>written = ''HTTP/1.0 404 '' @ CRLF, broken = None\<rparr>)
   \<and> Write (init \<lparr>StatusCode = 404, Proto = ''HTTP/1.0'', FilePath = []\<rparr>)
         \<lparr>written = [], broken = None\<rparr>
       = (None, \<lparr>written = ''HTTP/1.1 404 '' @ CRLF, broken = None\<rparr>)"
  using Write_unmapped_status [of "\<lparr>StatusCode = 404, Proto = ''HTTP/1.0'', FilePath = []\<rparr>"
      "\<lparr>written = [], broken = None\<rparr>"]
  by (simp add: FormatInt_def digits10.simps)

text \<open>
  Claim C10 as stated has the line start with \<open>HTTP/1.1\<close> for every response. \<open>Write\<close>
  emits the \<open>Proto\<close> field as it finds it: the response with code 404 and an empty
  \<open>Proto\<close> gives \<open>SP 404 SP\<close> CR LF.
\<close>

theorem Write_unmapped_status_counterexample:
  "StatusCode \<lparr>StatusCode = 404, Proto = [], FilePath = []\<rparr> \<noteq> 200
   \<and> StatusCode \<lparr>StatusCode = 404, Proto = [], FilePath = []\<rparr> \<noteq> 405
   \<and> Write \<lparr>StatusCode = 404, Proto = [], FilePath = []\<rparr> \<lparr>written = [], broken = None\<rparr>
       = (None, \<lparr>written = '' 404 '' @ CRLF, broken = None\<rparr>)
   \<and> '' 404 '' @ CRLF \<noteq> ''HTTP/1.1 404 '' @ CRLF"
  by (simp add: Write_def NewWriter_def WriteString_def Flush_def FormatInt_def digits10.simps
      map_index_def statusText_def statusOK_def statusMethodNotAllowed_def CRLF_def)

end
